theory Spec2Isabelle
  imports Main "HOL-Library.Sublist" "HOL-Library.Word"
begin

section \<open>Python strings\<close>

text \<open>
  A Python \<open>str\<close> is a sequence of Unicode code points. The anchor delimiter of the
  program is U+2014, the tokenizer's markers are U+2423, U+0F0B and U+1680: none of
  them is a byte, so a string is modelled as the list of its code points.
\<close>

type_synonym pystr = "nat list"

definition ascii :: "string \<Rightarrow> pystr" where
  "ascii s = map of_char s"

definition NL :: nat where "NL = 10"
definition TAB :: nat where "TAB = 9"
definition SP :: nat where "SP = 32"

text \<open>The anchor delimiter, U+2014.\<close>
definition DELIM :: nat where "DELIM = 8212"

text \<open>The attached-particle marker U+2423, the tsheg U+0F0B, the space marker U+1680.\<close>
definition OPENBOX :: nat where "OPENBOX = 9251"
definition TSHEG :: nat where "TSHEG = 3851"
definition OGHAM :: nat where "OGHAM = 5760"

text \<open>\<open>str.isspace\<close> on one code point: the white space that \<open>str.strip()\<close> removes.\<close>
definition isspace :: "nat \<Rightarrow> bool" where
  "isspace c \<longleftrightarrow>
     (9 \<le> c \<and> c \<le> 13) \<or> (28 \<le> c \<and> c \<le> 32) \<or> c = 133 \<or> c = 160 \<or> c = 5760 \<or>
     (8192 \<le> c \<and> c \<le> 8202) \<or> c = 8232 \<or> c = 8233 \<or> c = 8239 \<or> c = 8287 \<or> c = 12288"

text \<open>\<open>s.strip()\<close>\<close>
definition strip :: "pystr \<Rightarrow> pystr" where
  "strip s = rev (dropWhile isspace (rev (dropWhile isspace s)))"

text \<open>\<open>s.split(c)\<close> for a separator \<open>c\<close> of one character: never an empty list.\<close>
fun split_py :: "nat \<Rightarrow> pystr \<Rightarrow> pystr list" where
  "split_py c [] = [[]]"
| "split_py c (x # xs) =
     (if x = c then [] # split_py c xs
      else (case split_py c xs of [] \<Rightarrow> [[x]] | y # ys \<Rightarrow> (x # y) # ys))"

text \<open>\<open>sep.join(parts)\<close>\<close>
fun join_py :: "pystr \<Rightarrow> pystr list \<Rightarrow> pystr" where
  "join_py sep [] = []"
| "join_py sep [x] = x"
| "join_py sep (x # y # ys) = x @ sep @ join_py sep (y # ys)"

text \<open>\<open>s.startswith(p)\<close>, \<open>s.endswith(p)\<close>, \<open>p in s\<close>\<close>
definition startswith :: "pystr \<Rightarrow> pystr \<Rightarrow> bool" where
  "startswith s p = prefix p s"

definition endswith :: "pystr \<Rightarrow> pystr \<Rightarrow> bool" where
  "endswith s p = prefix (rev p) (rev s)"

fun contains_py :: "pystr \<Rightarrow> pystr \<Rightarrow> bool" where
  "contains_py p [] = (p = [])"
| "contains_py p (x # xs) = (prefix p (x # xs) \<or> contains_py p xs)"

text \<open>\<open>s.count(c)\<close> for a pattern \<open>c\<close> of one character.\<close>
definition count_py :: "nat \<Rightarrow> pystr \<Rightarrow> nat" where
  "count_py c s = length (filter (\<lambda>x. x = c) s)"

text \<open>\<open>s.find(c, start)\<close> for a pattern of one character: the index, or -1.\<close>
fun find_aux :: "nat \<Rightarrow> pystr \<Rightarrow> nat \<Rightarrow> int" where
  "find_aux c [] i = - 1"
| "find_aux c (x # xs) i = (if x = c then int i else find_aux c xs (Suc i))"

definition find_py :: "nat \<Rightarrow> pystr \<Rightarrow> int \<Rightarrow> int" where
  "find_py c s start =
     (let st = (if start < 0 then max 0 (int (length s) + start) else start)
      in find_aux c (drop (nat st) s) (nat st))"

text \<open>The slices \<open>s[:i]\<close> and \<open>s[i:]\<close>; a negative index counts from the end.\<close>
definition slice_to :: "pystr \<Rightarrow> int \<Rightarrow> pystr" where
  "slice_to s i = (if i < 0 then take (length s - nat (- i)) s else take (nat i) s)"

definition slice_from :: "pystr \<Rightarrow> int \<Rightarrow> pystr" where
  "slice_from s i = (if i < 0 then drop (length s - nat (- i)) s else drop (nat i) s)"

text \<open>
  \<open>s.replace(old, new)\<close>: every occurrence of \<open>old\<close>, left to right, without overlap;
  an empty \<open>old\<close> matches before every character and at the end.
\<close>
function replace_py :: "pystr \<Rightarrow> pystr \<Rightarrow> pystr \<Rightarrow> pystr" where
  "replace_py old new [] = (if old = [] then new else [])"
| "replace_py old new (c # cs) =
     (if old = [] then new @ c # replace_py old new cs
      else if prefix old (c # cs) then new @ replace_py old new (drop (length old) (c # cs))
      else c # replace_py old new cs)"
  by pat_completeness auto
termination
  by (relation "measure (\<lambda>(old, new, s). length s)") auto

section \<open>Anchors\<close>

text \<open>
  \<open>uuid4()\<close> draws a 128-bit identifier; the draws are an input of the model, a supply
  \<open>rnd\<close> read at a counter that every draw advances. \<open>.hex\<close> prints the identifier as
  32 lower-case hexadecimal digits.
\<close>

definition hexdigit :: "nat \<Rightarrow> nat" where
  "hexdigit d = (if d < 10 then 48 + d else 87 + d)"

definition uuid_hex :: "128 word \<Rightarrow> pystr" where
  "uuid_hex w = map (\<lambda>i. hexdigit (unat w div 16 ^ i mod 16)) (rev [0..<32])"

definition get_unique_id :: "(nat \<Rightarrow> 128 word) \<Rightarrow> nat \<Rightarrow> pystr \<times> nat" where
  "get_unique_id rnd n = (uuid_hex (rnd n), Suc n)"

text \<open>The loop of \<open>add_missing_uuids\<close> over the lines, threading the counter of draws.\<close>
fun add_missing_loop :: "(nat \<Rightarrow> 128 word) \<Rightarrow> nat \<Rightarrow> pystr list \<Rightarrow> pystr list \<times> nat" where
  "add_missing_loop rnd n [] = ([], n)"
| "add_missing_loop rnd n (line # rest) =
     (let l = strip line in
      if \<not> endswith l [DELIM]
      then (let (u, n1) = get_unique_id rnd n;
                (out, n2) = add_missing_loop rnd n1 rest
            in ((l @ [DELIM] @ u @ [DELIM]) # out, n2))
      else (let (out, n2) = add_missing_loop rnd n rest in (line # out, n2)))"

definition add_missing_uuids :: "(nat \<Rightarrow> 128 word) \<Rightarrow> nat \<Rightarrow> pystr \<Rightarrow> pystr \<times> nat" where
  "add_missing_uuids rnd n dump =
     (let (lines, n') = add_missing_loop rnd n (split_py NL (strip dump))
      in (join_py [NL] lines, n'))"

definition remove_extra_uuid :: "pystr \<Rightarrow> pystr" where
  "remove_extra_uuid line =
     (if count_py DELIM line > 2
      then (let idx1 = find_py DELIM line 0;
                idx2 = find_py DELIM line (idx1 + 1)
            in strip (slice_to line idx1 @ slice_from line (idx2 + 1)))
      else line)"

section \<open>The persisted translation units\<close>

text \<open>
  A \<open>polib.POEntry\<close> with the fields the program sets. A \<open>polib.POFile\<close> is the
  list of its entries, in file order; the library's reader and writer are taken as
  preserving that list.
\<close>

record po_entry =
  msgid :: pystr
  msgstr :: pystr
  msgctxt :: "pystr option"
  comment :: "pystr option"
  tcomment :: "pystr option"

text \<open>\<open>Po._create_entry\<close>: builds the entry and appends it to \<open>self.file\<close>.\<close>
definition create_entry ::
  "po_entry list \<Rightarrow> pystr \<Rightarrow> pystr \<Rightarrow> pystr option \<Rightarrow> pystr option \<Rightarrow> pystr option \<Rightarrow> po_entry list" where
  "create_entry file mid mstr mctxt cmt tcmt =
     file @ [\<lparr>msgid = mid, msgstr = mstr, msgctxt = mctxt, comment = cmt, tcomment = tcmt\<rparr>]"

text \<open>
  The call of \<open>lines_to_entries\<close>, \<open>_create_entry(msgid=.., msgctxt=.., tcomment=..)\<close>:
  \<open>msgstr\<close> and \<open>comment\<close> take the defaults of the signature, \<open>""\<close> and \<open>None\<close>.
\<close>
definition create_unit :: "po_entry list \<Rightarrow> pystr \<Rightarrow> pystr \<Rightarrow> pystr \<Rightarrow> po_entry list" where
  "create_unit file text ctxt cmt = create_entry file text [] (Some ctxt) None (Some cmt)"

text \<open>What an f-string prints for a field that may be \<open>None\<close>.\<close>
definition format_field :: "pystr option \<Rightarrow> pystr" where
  "format_field b = (case b of None \<Rightarrow> ascii ''None'' | Some s \<Rightarrow> s)"

section \<open>Resynchronization\<close>

datatype error = ValueError

text \<open>
  The alignment primitive \<open>antx.transfer(source, patterns, target, output)\<close> is an
  external library: it is a parameter of every function that calls it.
\<close>
type_synonym transfer_fn = "pystr \<Rightarrow> (pystr \<times> pystr) list \<Rightarrow> pystr \<Rightarrow> pystr \<Rightarrow> pystr"

text \<open>The first loop of \<open>extract_entries\<close>: one (line, context) pair per unit.\<close>
definition po_entries :: "po_entry list \<Rightarrow> (pystr \<times> pystr option) list" where
  "po_entries po_file =
     map (\<lambda>p. (replace_py [OGHAM] [SP] (replace_py [SP] [] (msgid p)), msgctxt p)) po_file"

definition extract_entries :: "transfer_fn \<Rightarrow> pystr \<Rightarrow> po_entry list \<Rightarrow> pystr" where
  "extract_entries transfer dump po_file =
     (let po_dump = join_py [NL]
            (map (\<lambda>(a, b). a @ [DELIM] @ format_field b @ [DELIM]) (po_entries po_file));
          pattern = [(ascii ''uuid'', [40, DELIM, 46, 43, 63, DELIM, 41])]
      in transfer po_dump pattern dump (ascii ''txt''))"

text \<open>
  The loop of \<open>generate_entries\<close>. The unpacking \<open>txt, ctxt = ...\<close> raises
  \<open>ValueError\<close> unless the split has exactly two parts.
\<close>
fun generate_loop :: "pystr list \<Rightarrow> error + (pystr \<times> pystr) list" where
  "generate_loop [] = Inr []"
| "generate_loop (line0 # rest) =
     (let line1 = strip line0;
          line2 = remove_extra_uuid line1
      in case split_py DELIM (slice_to line2 (- 1)) of
           [txt, ctxt] \<Rightarrow>
             (case generate_loop rest of
                Inl e \<Rightarrow> Inl e
              | Inr entries \<Rightarrow> Inr ((txt, ctxt) # entries))
         | _ \<Rightarrow> Inl ValueError)"

text \<open>\<open>po_file\<close> is \<open>None\<close> when \<open>po_file.is_file()\<close> is false.\<close>
definition generate_entries ::
  "transfer_fn \<Rightarrow> (nat \<Rightarrow> 128 word) \<Rightarrow> nat \<Rightarrow> pystr \<Rightarrow> po_entry list option
     \<Rightarrow> error + ((pystr \<times> pystr) list \<times> nat)" where
  "generate_entries transfer rnd n dump po_file =
     (let dump1 = (case po_file of Some f \<Rightarrow> extract_entries transfer dump f | None \<Rightarrow> dump);
          (updated, n') = add_missing_uuids rnd n dump1
      in case generate_loop (split_py NL (strip updated)) of
           Inl e \<Rightarrow> Inl e
         | Inr entries \<Rightarrow> Inr (entries, n'))"

section \<open>Glossary\<close>

text \<open>
  A glossary entry is \<open>[(word, num), definitions]\<close>; the glossary is a \<open>dict\<close> from the
  segmented headword to its entry, kept as the list of its items in iteration order.
\<close>
type_synonym glossary_entry = "(pystr \<times> pystr) \<times> (pystr \<times> pystr list) list"
type_synonym glossary = "(pystr \<times> glossary_entry) list"

text \<open>\<open>Glossary._find_matches\<close>\<close>
fun find_matches :: "glossary \<Rightarrow> pystr \<Rightarrow> glossary_entry list" where
  "find_matches [] segment = []"
| "find_matches ((word, e) # rest) segment =
     (if startswith segment (word @ [SP]) then e # find_matches rest segment
      else if endswith segment (SP # word) then e # find_matches rest segment
      else if contains_py (SP # word @ [SP]) segment then e # find_matches rest segment
      else find_matches rest segment)"

definition find_entries :: "glossary \<Rightarrow> pystr \<Rightarrow> glossary_entry list" where
  "find_entries entries segment =
     find_matches entries
       (replace_py [OGHAM] [SP] (replace_py [TSHEG, SP] [SP] (replace_py [OPENBOX] [SP] segment)))"

section \<open>Plain-text exports\<close>

text \<open>\<open>Po.__init__\<close> of the exporter: load the file, then \<open>_format_fields\<close>.\<close>
definition format_fields :: "(pystr \<Rightarrow> pystr) \<Rightarrow> po_entry list \<Rightarrow> po_entry list" where
  "format_fields format_fr file = map (\<lambda>entry. entry\<lparr>msgstr := format_fr (msgstr entry)\<rparr>) file"

text \<open>The loop of \<open>format_entries\<close>: the (text, trans) pairs.\<close>
definition text_trans :: "po_entry list \<Rightarrow> (pystr \<times> pystr) list" where
  "text_trans file =
     map (\<lambda>entry.
            (replace_py [NL] [SP]
               (replace_py [OGHAM] [SP] (replace_py [OPENBOX] [] (replace_py [SP] [] (msgid entry)))),
             msgstr entry)) file"

definition format_entries :: "po_entry list \<Rightarrow> pystr \<times> pystr \<times> pystr" where
  "format_entries file =
     (let entries = text_trans file
      in (join_py [NL] (map (\<lambda>e. join_py [NL] [fst e, TAB # snd e]) entries),
          join_py [NL] (map (\<lambda>e. strip (snd e)) entries),
          join_py [NL] (map (\<lambda>e. join_py [NL] [snd e, TAB # fst e]) entries)))"






text \<open>
  A stand-in for the alignment primitive in closed examples: it returns the target
  text as it is, with no anchor transferred.
\<close>
definition no_transfer :: transfer_fn where
  "no_transfer source pattern target kind = target"

section \<open>Facts about the Python string operations\<close>

lemmas eval_defs = ascii_def startswith_def endswith_def NL_def TAB_def SP_def DELIM_def
  OGHAM_def TSHEG_def OPENBOX_def

lemma not_startswith_longer: "length s < length p \<Longrightarrow> \<not> startswith s p"
  by (auto simp: startswith_def dest: prefix_length_le)

lemma not_endswith_longer: "length s < length p \<Longrightarrow> \<not> endswith s p"
  by (auto simp: endswith_def dest: prefix_length_le)

lemma contains_py_length: "contains_py p s \<Longrightarrow> length p \<le> length s"
  by (induction s) (auto dest: prefix_length_le)

lemma not_contains_longer: "length s < length p \<Longrightarrow> \<not> contains_py p s"
  by (auto dest: contains_py_length)

section \<open>The match engine\<close>

lemma find_matches_append:
  "find_matches (a @ b) s = find_matches a s @ find_matches b s"
  by (induction a s rule: find_matches.induct) auto

lemma find_entries_append:
  "find_entries (a @ b) s = find_entries a s @ find_entries b s"
  by (simp add: find_entries_def find_matches_append)

lemma find_matches_self: "find_matches [(w, e)] w = []"
  by (simp add: not_startswith_longer not_endswith_longer not_contains_longer)

lemma blue_interior: "find_entries [(ascii ''blue'', e)] (ascii ''the blue sky'') = [e]"
  by (simp add: find_entries_def eval_defs)

lemma blue_left: "find_entries [(ascii ''blue'', e)] (ascii ''blue sky'') = [e]"
  by (simp add: find_entries_def eval_defs)

lemma blue_right: "find_entries [(ascii ''blue'', e)] (ascii ''sky blue'') = [e]"
  by (simp add: find_entries_def eval_defs)

lemma blue_none: "find_entries [(ascii ''blue'', e)] (ascii ''lightblue sky'') = []"
  by (simp add: find_entries_def eval_defs)

text \<open>
  C6. With the headword "blue" in the glossary, \<open>find_entries\<close> returns its entry on
  "the blue sky" (interior), on "blue sky" (left-anchored) and on "sky blue"
  (right-anchored), and nothing for it on "lightblue sky". In a glossary with other
  headwords before and after it, the entry of "blue" takes its place between their
  matches on the first three lines and is absent on the fourth.
\<close>
theorem match_boundary_correctness:
  "find_entries [(ascii ''blue'', e)] (ascii ''the blue sky'') = [e] \<and>
   find_entries [(ascii ''blue'', e)] (ascii ''blue sky'') = [e] \<and>
   find_entries [(ascii ''blue'', e)] (ascii ''sky blue'') = [e] \<and>
   find_entries [(ascii ''blue'', e)] (ascii ''lightblue sky'') = [] \<and>
   find_entries (pre @ (ascii ''blue'', e) # post) (ascii ''the blue sky'') =
     find_entries pre (ascii ''the blue sky'') @ e # find_entries post (ascii ''the blue sky'') \<and>
   find_entries (pre @ (ascii ''blue'', e) # post) (ascii ''blue sky'') =
     find_entries pre (ascii ''blue sky'') @ e # find_entries post (ascii ''blue sky'') \<and>
   find_entries (pre @ (ascii ''blue'', e) # post) (ascii ''sky blue'') =
     find_entries pre (ascii ''sky blue'') @ e # find_entries post (ascii ''sky blue'') \<and>
   find_entries (pre @ (ascii ''blue'', e) # post) (ascii ''lightblue sky'') =
     find_entries pre (ascii ''lightblue sky'') @ find_entries post (ascii ''lightblue sky'')"
  using find_entries_append [of pre "(ascii ''blue'', e) # post"]
        find_entries_append [of "[(ascii ''blue'', e)]" post]
        blue_interior [of e] blue_left [of e] blue_right [of e] blue_none [of e]
  by simp

text \<open>
  C9. When the normalized line is exactly the headword \<open>w\<close>, none of the three
  conditions holds for \<open>w\<close> (each needs a space next to the headword, so a string
  longer than the line), and \<open>find_entries\<close> returns what the other headwords match:
  the entry of \<open>w\<close> contributes nothing.
\<close>
theorem exact_headword_no_match:
  assumes "replace_py [OGHAM] [SP] (replace_py [TSHEG, SP] [SP] (replace_py [OPENBOX] [SP] segment)) = w"
  shows "\<not> startswith w (w @ [SP]) \<and> \<not> endswith w (SP # w) \<and> \<not> contains_py (SP # w @ [SP]) w \<and>
         find_entries (pre @ (w, e) # post) segment = find_entries pre segment @ find_entries post segment"
proof -
  have "find_matches (pre @ [(w, e)] @ post) w = find_matches pre w @ find_matches post w"
    unfolding find_matches_append find_matches_self by simp
  then show ?thesis using assms
    by (simp add: find_entries_def not_startswith_longer not_endswith_longer not_contains_longer)
qed

theorem exact_headword_no_match_witness:
  "replace_py [OGHAM] [SP] (replace_py [TSHEG, SP] [SP] (replace_py [OPENBOX] [SP] (ascii ''blue'')))
     = ascii ''blue'' \<and>
   \<not> startswith (ascii ''blue'') (ascii ''blue'' @ [SP]) \<and>
   find_entries ([] @ (ascii ''blue'', ((ascii ''blue'', ascii ''7''), [])) # []) (ascii ''blue'') =
     find_entries [] (ascii ''blue'') @ find_entries [] (ascii ''blue'')"
proof -
  have h: "replace_py [OGHAM] [SP] (replace_py [TSHEG, SP] [SP] (replace_py [OPENBOX] [SP] (ascii ''blue'')))
             = ascii ''blue''"
    by (simp add: eval_defs)
  show ?thesis
    using h exact_headword_no_match [OF h, of "[]" "((ascii ''blue'', ascii ''7''), [])" "[]"] by simp
qed

section \<open>Duplicate repair\<close>

lemma count_py_append: "count_py c (xs @ ys) = count_py c xs + count_py c ys"
  by (simp add: count_py_def)

lemma count_py_Cons: "count_py c (x # xs) = (if x = c then Suc (count_py c xs) else count_py c xs)"
  by (simp add: count_py_def)

lemma count_py_Nil: "count_py c [] = 0"
  by (simp add: count_py_def)

lemma count_py_zero_iff: "count_py c s = 0 \<longleftrightarrow> c \<notin> set s"
  by (induction s) (auto simp: count_py_def)

lemma count_py_rev: "count_py c (rev s) = count_py c s"
  by (simp add: count_py_def flip: rev_filter)

lemma count_py_dropWhile: "\<not> P c \<Longrightarrow> count_py c (dropWhile P s) = count_py c s"
  by (induction s) (auto simp: count_py_def)

lemma isspace_DELIM: "\<not> isspace DELIM" by (simp add: isspace_def DELIM_def)

lemma count_py_strip: "\<not> isspace c \<Longrightarrow> count_py c (strip s) = count_py c s"
  by (simp add: strip_def count_py_rev count_py_dropWhile)

lemma find_aux_eq:
  "find_aux c xs i = (if c \<in> set xs then int (i + length (takeWhile (\<lambda>x. x \<noteq> c) xs)) else - 1)"
  by (induction xs arbitrary: i) auto

lemma takeWhile_neq_append: "c \<notin> set pre \<Longrightarrow> takeWhile (\<lambda>x. x \<noteq> c) (pre @ c # rest) = pre"
  by (induction pre) auto

lemma find_py_first: "c \<notin> set pre \<Longrightarrow> find_py c (pre @ c # rest) 0 = int (length pre)"
  by (simp add: find_py_def find_aux_eq takeWhile_neq_append)

lemma find_py_second:
  "c \<notin> set a \<Longrightarrow>
   find_py c (pre @ c # a @ c # rest) (int (length pre) + 1) = int (length pre) + 1 + int (length a)"
  by (simp add: find_py_def find_aux_eq takeWhile_neq_append nat_add_distrib)

lemma slice_to_append: "slice_to (pre @ rest) (int (length pre)) = pre"
  by (simp add: slice_to_def)

lemma slice_from_append2:
  "slice_from (pre @ c # a @ d # rest) (2 + (int (length pre) + int (length a))) = rest"
  by (simp add: slice_from_def nat_add_distrib)

lemma remove_extra_uuid_unchanged: "count_py DELIM line \<le> 2 \<Longrightarrow> remove_extra_uuid line = line"
  by (simp add: remove_extra_uuid_def)

lemma remove_extra_uuid_segment:
  assumes "DELIM \<notin> set pre" "DELIM \<notin> set a" "DELIM \<in> set rest"
  shows "remove_extra_uuid (pre @ DELIM # a @ DELIM # rest) = strip (pre @ rest)"
proof -
  have "count_py DELIM rest > 0" using assms(3) count_py_zero_iff [of DELIM rest] by simp
  then have "count_py DELIM (pre @ DELIM # a @ DELIM # rest) > 2"
    by (simp add: count_py_append count_py_Cons)
  then show ?thesis using assms(1,2)
    by (simp add: remove_extra_uuid_def find_py_first find_py_second slice_to_append slice_from_append2
        del: append_assoc)
qed

lemma split_two:
  assumes "count_py c s \<ge> 2"
  shows "\<exists>pre a rest. s = pre @ c # a @ c # rest \<and> c \<notin> set pre \<and> c \<notin> set a"
proof -
  have "c \<in> set s" using assms count_py_zero_iff [of c s] by auto
  then obtain pre r where s: "s = pre @ c # r" "c \<notin> set pre" by (meson split_list_first)
  have "count_py c pre = 0" using s(2) by (simp add: count_py_zero_iff)
  then have "count_py c r \<ge> 1" using assms s(1) by (simp add: count_py_append count_py_Cons)
  then have "c \<in> set r" using count_py_zero_iff [of c r] by auto
  then obtain a rest where r: "r = a @ c # rest" "c \<notin> set a" by (meson split_list_first)
  show ?thesis using s r by auto
qed

lemma remove_extra_uuid_count:
  "count_py DELIM (remove_extra_uuid line) =
     (if count_py DELIM line > 2 then count_py DELIM line - 2 else count_py DELIM line)"
proof (cases "count_py DELIM line > 2")
  case False
  then show ?thesis by (simp add: remove_extra_uuid_def)
next
  case True
  then obtain pre a rest where l: "line = pre @ DELIM # a @ DELIM # rest"
    "DELIM \<notin> set pre" "DELIM \<notin> set a"
    using split_two [of DELIM line] by auto
  have cz: "count_py DELIM pre = 0" "count_py DELIM a = 0"
    using l(2,3) by (simp_all add: count_py_zero_iff)
  have c: "count_py DELIM line = count_py DELIM rest + 2"
    using cz by (simp add: l(1) count_py_append count_py_Cons)
  then have "DELIM \<in> set rest" using True count_py_zero_iff [of DELIM rest] by auto
  then have "remove_extra_uuid line = strip (pre @ rest)"
    using l remove_extra_uuid_segment by simp
  then show ?thesis using True c cz
    by (simp add: count_py_strip isspace_DELIM count_py_append)
qed


text \<open>
  A line with three stacked anchors has six delimiters; one application of
  \<open>remove_extra_uuid\<close> removes the first anchor and leaves four delimiters, not two.
\<close>
theorem remove_extra_uuid_six_delimiters_counterexample:
  "count_py DELIM (ascii ''t'' @ [DELIM] @ ascii ''a'' @ [DELIM, DELIM] @ ascii ''b'' @ [DELIM, DELIM] @ ascii ''c'' @ [DELIM]) = 6 \<and>
   remove_extra_uuid (ascii ''t'' @ [DELIM] @ ascii ''a'' @ [DELIM, DELIM] @ ascii ''b'' @ [DELIM, DELIM] @ ascii ''c'' @ [DELIM])
     = ascii ''t'' @ [DELIM] @ ascii ''b'' @ [DELIM, DELIM] @ ascii ''c'' @ [DELIM] \<and>
   count_py DELIM (remove_extra_uuid
     (ascii ''t'' @ [DELIM] @ ascii ''a'' @ [DELIM, DELIM] @ ascii ''b'' @ [DELIM, DELIM] @ ascii ''c'' @ [DELIM])) \<noteq> 2"
  by (simp add: remove_extra_uuid_def count_py_def find_py_def slice_to_def slice_from_def
      strip_def isspace_def eval_defs)

text \<open>
  C2 (amended). \<open>remove_extra_uuid\<close> returns a line with at most two delimiters as it
  is. On a line with \<open>k \<ge> 3\<close> delimiters it removes the first anchor segment (the first
  two delimiters and what is between them), trims the result, and yields \<open>k - 2\<close>
  delimiters; on two stacked anchors (\<open>k = 4\<close>) it keeps the last anchor and yields
  exactly two delimiters.
\<close>
theorem remove_extra_uuid_repair:
  "(count_py DELIM line \<le> 2 \<longrightarrow> remove_extra_uuid line = line) \<and>
   (3 \<le> count_py DELIM line \<longrightarrow>
      (\<exists>pre a rest. line = pre @ DELIM # a @ DELIM # rest \<and> DELIM \<notin> set pre \<and> DELIM \<notin> set a \<and>
         remove_extra_uuid line = strip (pre @ rest)) \<and>
      count_py DELIM (remove_extra_uuid line) = count_py DELIM line - 2) \<and>
   (DELIM \<notin> set t \<and> DELIM \<notin> set a1 \<and> DELIM \<notin> set a2 \<longrightarrow>
      remove_extra_uuid (t @ [DELIM] @ a1 @ [DELIM] @ [DELIM] @ a2 @ [DELIM]) = strip (t @ [DELIM] @ a2 @ [DELIM]) \<and>
      count_py DELIM (remove_extra_uuid (t @ [DELIM] @ a1 @ [DELIM] @ [DELIM] @ a2 @ [DELIM])) = 2)"
proof (intro conjI impI)
  assume "count_py DELIM line \<le> 2"
  then show "remove_extra_uuid line = line" by (rule remove_extra_uuid_unchanged)
next
  assume k: "3 \<le> count_py DELIM line"
  then obtain pre a rest where l: "line = pre @ DELIM # a @ DELIM # rest"
    "DELIM \<notin> set pre" "DELIM \<notin> set a"
    using split_two [of DELIM line] by auto
  have "count_py DELIM line = count_py DELIM rest + 2"
    using l(2,3) count_py_zero_iff [of DELIM pre] count_py_zero_iff [of DELIM a]
    by (simp add: l(1) count_py_append count_py_Cons)
  then have "DELIM \<in> set rest" using k count_py_zero_iff [of DELIM rest] by auto
  then have "remove_extra_uuid line = strip (pre @ rest)"
    using l remove_extra_uuid_segment by simp
  then show "\<exists>pre a rest. line = pre @ DELIM # a @ DELIM # rest \<and> DELIM \<notin> set pre \<and> DELIM \<notin> set a \<and>
         remove_extra_uuid line = strip (pre @ rest)"
    using l by blast
next
  assume "3 \<le> count_py DELIM line"
  then show "count_py DELIM (remove_extra_uuid line) = count_py DELIM line - 2"
    by (simp add: remove_extra_uuid_count)
next
  assume h: "DELIM \<notin> set t \<and> DELIM \<notin> set a1 \<and> DELIM \<notin> set a2"
  have "remove_extra_uuid (t @ DELIM # a1 @ DELIM # ([DELIM] @ a2 @ [DELIM])) = strip (t @ ([DELIM] @ a2 @ [DELIM]))"
    using h by (intro remove_extra_uuid_segment) simp_all
  then show r: "remove_extra_uuid (t @ [DELIM] @ a1 @ [DELIM] @ [DELIM] @ a2 @ [DELIM]) = strip (t @ [DELIM] @ a2 @ [DELIM])"
    by simp
  show "count_py DELIM (remove_extra_uuid (t @ [DELIM] @ a1 @ [DELIM] @ [DELIM] @ a2 @ [DELIM])) = 2"
    unfolding r using h count_py_zero_iff [of DELIM t] count_py_zero_iff [of DELIM a2]
    by (simp add: count_py_strip isspace_DELIM count_py_append count_py_Cons count_py_Nil)
qed

theorem remove_extra_uuid_repair_witness:
  "count_py DELIM (ascii ''t'' @ [DELIM] @ ascii ''a'' @ [DELIM]) \<le> 2 \<and>
   remove_extra_uuid (ascii ''t'' @ [DELIM] @ ascii ''a'' @ [DELIM]) = ascii ''t'' @ [DELIM] @ ascii ''a'' @ [DELIM] \<and>
   3 \<le> count_py DELIM (ascii ''t'' @ [DELIM] @ ascii ''a'' @ [DELIM] @ [DELIM] @ ascii ''b'' @ [DELIM]) \<and>
   DELIM \<notin> set (ascii ''t'') \<and> DELIM \<notin> set (ascii ''a'') \<and> DELIM \<notin> set (ascii ''b'') \<and>
   count_py DELIM (remove_extra_uuid (ascii ''t'' @ [DELIM] @ ascii ''a'' @ [DELIM] @ [DELIM] @ ascii ''b'' @ [DELIM])) = 2"
proof -
  have h1: "count_py DELIM (ascii ''t'' @ [DELIM] @ ascii ''a'' @ [DELIM]) \<le> 2"
    by (simp add: count_py_def eval_defs)
  have h2: "3 \<le> count_py DELIM (ascii ''t'' @ [DELIM] @ ascii ''a'' @ [DELIM] @ [DELIM] @ ascii ''b'' @ [DELIM])"
    by (simp add: count_py_def eval_defs)
  have h3: "DELIM \<notin> set (ascii ''t'') \<and> DELIM \<notin> set (ascii ''a'') \<and> DELIM \<notin> set (ascii ''b'')"
    by (simp add: eval_defs)
  show ?thesis
    using h1 h2 h3
      remove_extra_uuid_repair [of "ascii ''t'' @ [DELIM] @ ascii ''a'' @ [DELIM]" "ascii ''t''" "ascii ''a''" "ascii ''b''"]
    by blast
qed

section \<open>One insertion per headword\<close>

text \<open>
  On the line "blue blue blue" the headword "blue" satisfies all three conditions, and
  \<open>find_entries\<close> returns its entry once, not once per condition.
\<close>
theorem find_entries_all_conditions_counterexample:
  "startswith (ascii ''blue blue blue'') (ascii ''blue'' @ [SP]) \<and>
   endswith (ascii ''blue blue blue'') (SP # ascii ''blue'') \<and>
   contains_py (SP # ascii ''blue'' @ [SP]) (ascii ''blue blue blue'') \<and>
   find_entries [(ascii ''blue'', ((ascii ''blue'', ascii ''7''), []))] (ascii ''blue blue blue'')
     = [((ascii ''blue'', ascii ''7''), [])] \<and>
   length (find_entries [(ascii ''blue'', ((ascii ''blue'', ascii ''7''), []))] (ascii ''blue blue blue'')) \<noteq> 3"
  by (simp add: find_entries_def eval_defs)

lemma find_matches_filter:
  "find_matches entries s =
     map snd (filter (\<lambda>(w, e). startswith s (w @ [SP]) \<or> endswith s (SP # w) \<or>
                                  contains_py (SP # w @ [SP]) s) entries)"
  by (induction entries s rule: find_matches.induct) auto

text \<open>
  C3 (amended). The three conditions are tried in order (\<open>if\<close>, \<open>elif\<close>, \<open>elif\<close>) and
  the first that holds adds the entry: \<open>find_entries\<close> returns, in glossary order, the
  entry of every headword for which at least one condition holds on the normalized
  line, each exactly once, so never more entries than headwords.
\<close>
theorem find_entries_one_per_headword:
  "find_entries entries segment =
     map snd (filter (\<lambda>(w, e).
         startswith (replace_py [OGHAM] [SP] (replace_py [TSHEG, SP] [SP] (replace_py [OPENBOX] [SP] segment))) (w @ [SP]) \<or>
         endswith (replace_py [OGHAM] [SP] (replace_py [TSHEG, SP] [SP] (replace_py [OPENBOX] [SP] segment))) (SP # w) \<or>
         contains_py (SP # w @ [SP]) (replace_py [OGHAM] [SP] (replace_py [TSHEG, SP] [SP] (replace_py [OPENBOX] [SP] segment))))
       entries) \<and>
   length (find_entries entries segment) \<le> length entries"
  by (simp add: find_entries_def find_matches_filter)

section \<open>Round trip of a translation unit\<close>

lemma replace_py_absent: "c \<notin> set s \<Longrightarrow> replace_py [c] new s = s"
  by (induction s) auto

text \<open>
  A unit created for the text "a b" is read back by \<open>extract_entries\<close> as "ab": the
  reconstruction removes every space of \<open>msgid\<close>.
\<close>
theorem round_trip_space_counterexample:
  "po_entries (create_unit [] (ascii ''a b'') (ascii ''c'') (ascii ''n'')) = [(ascii ''ab'', Some (ascii ''c''))] \<and>
   po_entries (create_unit [] (ascii ''a b'') (ascii ''c'') (ascii ''n'')) \<noteq> [(ascii ''a b'', Some (ascii ''c''))]"
  by (simp add: po_entries_def create_unit_def create_entry_def eval_defs)

text \<open>
  C7 (amended). A unit created from (text, context, comment) has an empty translation,
  and the reconstruction of \<open>extract_entries\<close> reads it back as the context unchanged
  and the text with every space removed and every U+1680 then replaced by a space; it is
  the same (text, context) pair when the text has neither character.
\<close>
theorem round_trip_unit:
  "po_entries (create_unit file text ctxt cmt) =
     po_entries file @ [(replace_py [OGHAM] [SP] (replace_py [SP] [] text), Some ctxt)] \<and>
   msgstr (last (create_unit file text ctxt cmt)) = [] \<and>
   (SP \<notin> set text \<and> OGHAM \<notin> set text \<longrightarrow>
      po_entries (create_unit file text ctxt cmt) = po_entries file @ [(text, Some ctxt)])"
  by (simp add: po_entries_def create_unit_def create_entry_def replace_py_absent)

theorem round_trip_unit_witness:
  "SP \<notin> set (ascii ''ab'') \<and> OGHAM \<notin> set (ascii ''ab'') \<and>
   po_entries (create_unit [] (ascii ''ab'') (ascii ''c'') (ascii ''n'')) = po_entries [] @ [(ascii ''ab'', Some (ascii ''c''))]"
proof -
  have h: "SP \<notin> set (ascii ''ab'') \<and> OGHAM \<notin> set (ascii ''ab'')" by (simp add: eval_defs)
  show ?thesis using h round_trip_unit [of "[]" "ascii ''ab''" "ascii ''c''" "ascii ''n''"] by blast
qed

section \<open>The exports\<close>

lemma join_py_Cons: "join_py sep (x # xs) = (if xs = [] then x else x @ sep @ join_py sep xs)"
  by (cases xs) auto

lemma join_py_pairs:
  "join_py [c] (map (\<lambda>e. f e @ c # g e) es) = join_py [c] (concat (map (\<lambda>e. [f e, g e]) es))"
  by (induction es) (auto simp: join_py_Cons)

lemma replace_py_removes: "c \<notin> set new \<Longrightarrow> c \<notin> set (replace_py [c] new s)"
  by (induction s) auto

text \<open>
  For one unit with \<open>msgid\<close> "a b" and \<open>msgstr\<close> "c" the first export is "ab", newline,
  tab, "c": the line and its translation are on two lines, not joined by a tab alone,
  and the line is the \<open>msgid\<close> without its spaces.
\<close>
theorem format_entries_tab_counterexample:
  "format_entries [\<lparr>msgid = ascii ''a b'', msgstr = ascii ''c'', msgctxt = None, comment = None, tcomment = None\<rparr>] =
     (ascii ''ab'' @ [NL, TAB] @ ascii ''c'', ascii ''c'', ascii ''c'' @ [NL, TAB] @ ascii ''ab'') \<and>
   fst (format_entries [\<lparr>msgid = ascii ''a b'', msgstr = ascii ''c'', msgctxt = None, comment = None, tcomment = None\<rparr>])
     \<noteq> ascii ''a b'' @ [TAB] @ ascii ''c'' \<and>
   fst (format_entries [\<lparr>msgid = ascii ''a b'', msgstr = ascii ''c'', msgctxt = None, comment = None, tcomment = None\<rparr>])
     \<noteq> ascii ''ab'' @ [TAB] @ ascii ''c''"
  by (simp add: format_entries_def text_trans_def strip_def isspace_def eval_defs)

text \<open>
  C8 (amended). The line of a unit is its \<open>msgid\<close> with every space and every U+2423
  removed, then every U+1680 and every newline replaced by a space: it holds no
  newline, and it is the \<open>msgid\<close> itself when the \<open>msgid\<close> has none of these
  characters. \<open>format_entries\<close> returns three texts, in unit order: the first has, for
  each unit, the line and then, on the next line, a tab and the \<open>msgstr\<close>; the second
  has the stripped \<open>msgstr\<close> of each unit; the third has, for each unit, the \<open>msgstr\<close>
  and then, on the next line, a tab and the line.
\<close>
theorem format_entries_exports:
  "format_entries file =
     (join_py [NL] (concat (map (\<lambda>entry.
          [replace_py [NL] [SP] (replace_py [OGHAM] [SP] (replace_py [OPENBOX] [] (replace_py [SP] [] (msgid entry)))),
           TAB # msgstr entry]) file)),
      join_py [NL] (map (\<lambda>entry. strip (msgstr entry)) file),
      join_py [NL] (concat (map (\<lambda>entry.
          [msgstr entry,
           TAB # replace_py [NL] [SP] (replace_py [OGHAM] [SP] (replace_py [OPENBOX] [] (replace_py [SP] [] (msgid entry))))]) file))) \<and>
   NL \<notin> set (replace_py [NL] [SP] (replace_py [OGHAM] [SP] (replace_py [OPENBOX] [] (replace_py [SP] [] m)))) \<and>
   (SP \<notin> set m \<and> OPENBOX \<notin> set m \<and> OGHAM \<notin> set m \<and> NL \<notin> set m \<longrightarrow>
      replace_py [NL] [SP] (replace_py [OGHAM] [SP] (replace_py [OPENBOX] [] (replace_py [SP] [] m))) = m)"
proof (intro conjI impI)
  show "format_entries file =
     (join_py [NL] (concat (map (\<lambda>entry.
          [replace_py [NL] [SP] (replace_py [OGHAM] [SP] (replace_py [OPENBOX] [] (replace_py [SP] [] (msgid entry)))),
           TAB # msgstr entry]) file)),
      join_py [NL] (map (\<lambda>entry. strip (msgstr entry)) file),
      join_py [NL] (concat (map (\<lambda>entry.
          [msgstr entry,
           TAB # replace_py [NL] [SP] (replace_py [OGHAM] [SP] (replace_py [OPENBOX] [] (replace_py [SP] [] (msgid entry))))]) file)))"
    by (simp add: format_entries_def join_py_pairs text_trans_def comp_def)
next
  show "NL \<notin> set (replace_py [NL] [SP] (replace_py [OGHAM] [SP] (replace_py [OPENBOX] [] (replace_py [SP] [] m))))"
    by (rule replace_py_removes) (simp add: NL_def SP_def)
next
  assume "SP \<notin> set m \<and> OPENBOX \<notin> set m \<and> OGHAM \<notin> set m \<and> NL \<notin> set m"
  then show "replace_py [NL] [SP] (replace_py [OGHAM] [SP] (replace_py [OPENBOX] [] (replace_py [SP] [] m))) = m"
    by (simp add: replace_py_absent)
qed

theorem format_entries_exports_witness:
  "SP \<notin> set (ascii ''ab'') \<and> OPENBOX \<notin> set (ascii ''ab'') \<and> OGHAM \<notin> set (ascii ''ab'') \<and>
   NL \<notin> set (ascii ''ab'') \<and>
   replace_py [NL] [SP] (replace_py [OGHAM] [SP] (replace_py [OPENBOX] [] (replace_py [SP] [] (ascii ''ab'')))) = ascii ''ab'' \<and>
   format_entries [\<lparr>msgid = ascii ''ab'', msgstr = ascii ''c '', msgctxt = None, comment = None, tcomment = None\<rparr>,
                   \<lparr>msgid = ascii ''d e'', msgstr = ascii ''f'', msgctxt = None, comment = None, tcomment = None\<rparr>] =
     (ascii ''ab'' @ [NL, TAB] @ ascii ''c '' @ [NL] @ ascii ''de'' @ [NL, TAB] @ ascii ''f'',
      ascii ''c'' @ [NL] @ ascii ''f'',
      ascii ''c '' @ [NL, TAB] @ ascii ''ab'' @ [NL] @ ascii ''f'' @ [NL, TAB] @ ascii ''de'')"
proof -
  have h: "SP \<notin> set (ascii ''ab'') \<and> OPENBOX \<notin> set (ascii ''ab'') \<and> OGHAM \<notin> set (ascii ''ab'') \<and>
           NL \<notin> set (ascii ''ab'')"
    by (simp add: eval_defs)
  have n: "replace_py [NL] [SP] (replace_py [OGHAM] [SP] (replace_py [OPENBOX] [] (replace_py [SP] [] (ascii ''d e'')))) = ascii ''de''"
    by (simp add: eval_defs)
  have s: "strip (ascii ''c '') = ascii ''c''" "strip (ascii ''f'') = ascii ''f''"
    by (simp_all add: strip_def isspace_def eval_defs)
  show ?thesis
    using h
      format_entries_exports [of "[\<lparr>msgid = ascii ''ab'', msgstr = ascii ''c '', msgctxt = None, comment = None, tcomment = None\<rparr>,
                   \<lparr>msgid = ascii ''d e'', msgstr = ascii ''f'', msgctxt = None, comment = None, tcomment = None\<rparr>]" "ascii ''ab''"]
    by (simp add: n s)
qed




section \<open>Facts about trimming, splitting and joining\<close>

lemma endswith_single: "endswith s [c] \<longleftrightarrow> s \<noteq> [] \<and> last s = c"
  by (cases s rule: rev_cases) (auto simp: endswith_def)

lemma strip_Nil: "strip [] = []"
  by (simp add: strip_def)

lemma strip_noop: "s = [] \<or> (\<not> isspace (hd s) \<and> \<not> isspace (last s)) \<Longrightarrow> strip s = s"
proof (cases s)
  case Nil
  then show ?thesis by (simp add: strip_def)
next
  case (Cons x xs)
  assume "s = [] \<or> (\<not> isspace (hd s) \<and> \<not> isspace (last s))"
  with Cons have h: "\<not> isspace x" "\<not> isspace (last s)" by auto
  have 1: "dropWhile isspace s = s" using Cons h(1) by simp
  have "s = butlast s @ [last s]" using Cons by simp
  then have "rev s = last s # rev (butlast s)" by (metis rev.simps(2) rev_rev_ident rev_swap)
  then have 2: "dropWhile isspace (rev s) = rev s" using h(2) by (metis dropWhile.simps(2))
  show ?thesis by (simp add: strip_def 1 2)
qed

lemma strip_ends:
  assumes "strip s \<noteq> []"
  shows "\<not> isspace (hd (strip s)) \<and> \<not> isspace (last (strip s))"
proof -
  let ?a = "dropWhile isspace s"
  let ?b = "dropWhile isspace (rev ?a)"
  have b: "?b \<noteq> []" using assms by (simp add: strip_def)
  then have hb: "\<not> isspace (hd ?b)" by (rule hd_dropWhile)
  have l: "last (strip s) = hd ?b" using b by (simp add: strip_def last_rev)
  have a: "?a \<noteq> []" using b by (metis dropWhile.simps(1) rev.simps(1))
  then have ha: "\<not> isspace (hd ?a)" by (rule hd_dropWhile)
  have "\<exists>x \<in> set (rev ?a). \<not> isspace x" using b by (metis dropWhile_eq_Nil_conv)
  then obtain ys zs where "rev ?a = ys @ ?b" by (metis takeWhile_dropWhile_id)
  then have "?a = rev ?b @ rev ys" by (metis rev_append rev_rev_ident)
  then have "hd ?a = hd (rev ?b)" using b by (metis hd_append2 rev_is_Nil_conv)
  then show ?thesis using ha hb l by (simp add: strip_def)
qed

lemma strip_strip: "strip (strip s) = strip s"
  using strip_ends [of s] by (intro strip_noop) auto

lemma set_strip: "set (strip s) \<subseteq> set s"
  unfolding strip_def by (metis set_dropWhileD set_rev subsetI)

lemma endswith_strip: "endswith s [c] \<Longrightarrow> \<not> isspace c \<Longrightarrow> endswith (strip s) [c]"
proof -
  assume e: "endswith s [c]" and c: "\<not> isspace c"
  then obtain t where s: "s = t @ [c]" by (cases s rule: rev_cases) (auto simp: endswith_def)
  have "dropWhile isspace s = dropWhile isspace t @ [c]" (is "?a = _")
    using c by (simp add: s dropWhile_append3 dropWhile_append)
  then have "rev ?a = c # rev (dropWhile isspace t)" by simp
  then have "dropWhile isspace (rev ?a) = c # rev (dropWhile isspace t)" using c by simp
  then have "strip s = dropWhile isspace t @ [c]" by (simp add: strip_def)
  then show ?thesis by (simp add: endswith_single)
qed

lemma split_py_nonempty: "split_py c s \<noteq> []"
  by (induction s) (auto split: list.splits)

lemma split_py_free: "l \<in> set (split_py c s) \<Longrightarrow> c \<notin> set l"
  by (induction s arbitrary: l) (auto split: list.splits if_splits)

lemma join_split: "join_py [c] (split_py c s) = s"
  by (induction s) (auto simp: join_py_Cons split_py_nonempty split: list.splits)

lemma split_py_none: "c \<notin> set a \<Longrightarrow> split_py c a = [a]"
  by (induction a) auto

lemma split_py_append: "c \<notin> set a \<Longrightarrow> split_py c (a @ c # b) = a # split_py c b"
  by (induction a) auto

lemma split_join:
  "ls \<noteq> [] \<Longrightarrow> \<forall>l \<in> set ls. c \<notin> set l \<Longrightarrow> split_py c (join_py [c] ls) = ls"
proof (induction ls)
  case Nil
  then show ?case by simp
next
  case (Cons a ls)
  show ?case
  proof (cases "ls = []")
    case True
    then show ?thesis using Cons.prems by (simp add: split_py_none)
  next
    case False
    then show ?thesis using Cons by (simp add: join_py_Cons split_py_append)
  qed
qed

lemma length_split_py: "length (split_py c s) = Suc (count_py c s)"
  by (induction s) (auto simp: count_py_def split: list.splits)

lemma hexdigit_range: "d < 16 \<Longrightarrow> (48 \<le> hexdigit d \<and> hexdigit d \<le> 57) \<or> (97 \<le> hexdigit d \<and> hexdigit d \<le> 102)"
  by (auto simp: hexdigit_def)

lemma uuid_hex_length: "length (uuid_hex w) = 32"
  by (simp add: uuid_hex_def)

lemma uuid_hex_digits:
  "c \<in> set (uuid_hex w) \<Longrightarrow> (48 \<le> c \<and> c \<le> 57) \<or> (97 \<le> c \<and> c \<le> 102)"
proof -
  assume "c \<in> set (uuid_hex w)"
  then obtain i where "c = hexdigit (unat w div 16 ^ i mod 16)" by (auto simp: uuid_hex_def)
  then show ?thesis using hexdigit_range [of "unat w div 16 ^ i mod 16"] by simp
qed

lemma uuid_hex_no_DELIM: "DELIM \<notin> set (uuid_hex w)"
  using uuid_hex_digits [of DELIM w] by (auto simp: DELIM_def)

lemma uuid_hex_no_NL: "NL \<notin> set (uuid_hex w)"
  using uuid_hex_digits [of NL w] by (auto simp: NL_def)

section \<open>Anchor assignment\<close>

lemma add_missing_loop_length: "length (fst (add_missing_loop rnd n ls)) = length ls"
  by (induction ls arbitrary: n) (simp_all add: Let_def get_unique_id_def case_prod_unfold)

lemma add_missing_loop_snd:
  "snd (add_missing_loop rnd n ls) = n + length (filter (\<lambda>l. \<not> endswith (strip l) [DELIM]) ls)"
  by (induction ls arbitrary: n) (simp_all add: Let_def get_unique_id_def case_prod_unfold)

lemma add_missing_loop_Cons:
  "fst (add_missing_loop rnd n (l # ls)) =
     (if endswith (strip l) [DELIM] then l # fst (add_missing_loop rnd n ls)
      else (strip l @ [DELIM] @ uuid_hex (rnd n) @ [DELIM]) # fst (add_missing_loop rnd (Suc n) ls))"
  by (simp add: Let_def get_unique_id_def case_prod_unfold)

lemma add_missing_loop_nth:
  "i < length ls \<Longrightarrow>
   fst (add_missing_loop rnd n ls) ! i =
     (if endswith (strip (ls ! i)) [DELIM] then ls ! i
      else strip (ls ! i) @ [DELIM] @
           uuid_hex (rnd (n + length (filter (\<lambda>l. \<not> endswith (strip l) [DELIM]) (take i ls)))) @ [DELIM])"
proof (induction ls arbitrary: n i)
  case Nil
  then show ?case by simp
next
  case (Cons l ls)
  show ?case
  proof (cases i)
    case 0
    then show ?thesis by (simp add: add_missing_loop_Cons del: add_missing_loop.simps)
  next
    case (Suc j)
    then have j: "j < length ls" using Cons.prems by simp
    show ?thesis using Cons.IH [OF j] Suc by (simp add: add_missing_loop_Cons del: add_missing_loop.simps)
  qed
qed

lemma add_missing_loop_id:
  "\<forall>l \<in> set ls. endswith (strip l) [DELIM] \<Longrightarrow> add_missing_loop rnd n ls = (ls, n)"
  by (induction ls arbitrary: n) (simp_all add: Let_def)

lemma add_missing_loop_anchored:
  "l' \<in> set (fst (add_missing_loop rnd n ls)) \<Longrightarrow> endswith (strip l') [DELIM]"
proof (induction ls arbitrary: n)
  case Nil
  then show ?case by simp
next
  case (Cons l ls)
  have "endswith (strip l @ [DELIM] @ uuid_hex (rnd n) @ [DELIM]) [DELIM]"
    by (simp add: endswith_single)
  then have "endswith (strip (strip l @ [DELIM] @ uuid_hex (rnd n) @ [DELIM])) [DELIM]"
    by (rule endswith_strip) (rule isspace_DELIM)
  then show ?case using Cons by (auto simp: add_missing_loop_Cons simp del: add_missing_loop.simps split: if_splits)
qed

lemma add_missing_loop_NL_free:
  "\<forall>l \<in> set ls. NL \<notin> set l \<Longrightarrow> l' \<in> set (fst (add_missing_loop rnd n ls)) \<Longrightarrow> NL \<notin> set l'"
proof (induction ls arbitrary: n)
  case Nil
  then show ?case by simp
next
  case (Cons l ls)
  have "NL \<notin> set (strip l)" using Cons.prems(1) set_strip [of l] by auto
  then have "NL \<notin> set (strip l @ [DELIM] @ uuid_hex (rnd n) @ [DELIM])"
    using uuid_hex_no_NL by (simp add: NL_def DELIM_def)
  then show ?case using Cons by (auto simp: add_missing_loop_Cons simp del: add_missing_loop.simps split: if_splits)
qed

lemma hd_join_py: "ls \<noteq> [] \<Longrightarrow> hd ls \<noteq> [] \<Longrightarrow> hd (join_py sep ls) = hd (hd ls)"
  by (cases ls) (auto simp: join_py_Cons)

lemma join_py_nonempty_last: "ls \<noteq> [] \<Longrightarrow> last ls \<noteq> [] \<Longrightarrow> join_py sep ls \<noteq> []"
  by (induction ls) (auto simp: join_py_Cons)

lemma last_join_py: "ls \<noteq> [] \<Longrightarrow> last ls \<noteq> [] \<Longrightarrow> last (join_py sep ls) = last (last ls)"
  by (induction ls) (auto simp: join_py_Cons join_py_nonempty_last)

lemma join_py_nonempty: "ls \<noteq> [] \<Longrightarrow> hd ls \<noteq> [] \<Longrightarrow> join_py sep ls \<noteq> []"
  by (cases ls) (auto simp: join_py_Cons)

lemma join_trimmed:
  assumes "ls \<noteq> []" "hd ls \<noteq> []" "\<not> isspace (hd (hd ls))" "last ls \<noteq> []" "\<not> isspace (last (last ls))"
  shows "strip (join_py sep ls) = join_py sep ls"
  using assms by (intro strip_noop) (simp add: hd_join_py last_join_py)

lemma split_strip_ends:
  "(hd (split_py NL (strip d)) \<noteq> [] \<longrightarrow> \<not> isspace (hd (hd (split_py NL (strip d))))) \<and>
   (last (split_py NL (strip d)) \<noteq> [] \<longrightarrow> \<not> isspace (last (last (split_py NL (strip d)))))"
proof -
  let ?ls = "split_py NL (strip d)"
  have j: "join_py [NL] ?ls = strip d" by (rule join_split)
  have ne: "?ls \<noteq> []" by (rule split_py_nonempty)
  show ?thesis
  proof (intro conjI impI)
    assume h: "hd ?ls \<noteq> []"
    then have "strip d \<noteq> []" using join_py_nonempty [OF ne h, of "[NL]"] j by simp
    then have "\<not> isspace (hd (strip d))" using strip_ends by blast
    then show "\<not> isspace (hd (hd ?ls))" using hd_join_py [OF ne h, of "[NL]"] j by simp
  next
    assume h: "last ?ls \<noteq> []"
    then have "strip d \<noteq> []" using join_py_nonempty_last [OF ne h, of "[NL]"] j by simp
    then have "\<not> isspace (last (strip d))" using strip_ends by blast
    then show "\<not> isspace (last (last ?ls))" using last_join_py [OF ne h, of "[NL]"] j by simp
  qed
qed

lemma anchored_line_ends:
  assumes "(l \<noteq> [] \<longrightarrow> \<not> isspace (hd l))"
  shows "(if endswith (strip l) [DELIM] then l else strip l @ [DELIM] @ u @ [DELIM]) \<noteq> [] \<and>
         \<not> isspace (hd (if endswith (strip l) [DELIM] then l else strip l @ [DELIM] @ u @ [DELIM]))"
proof (cases "endswith (strip l) [DELIM]")
  case True
  then have "strip l \<noteq> []" by (simp add: endswith_single)
  then have "l \<noteq> []" using strip_Nil by auto
  then show ?thesis using True assms by simp
next
  case False
  show ?thesis
  proof (cases "strip l = []")
    case True
    then show ?thesis using False isspace_DELIM by simp
  next
    case n: False
    then have "\<not> isspace (hd (strip l))" using strip_ends by blast
    then show ?thesis using False n by simp
  qed
qed

lemma anchored_line_last:
  assumes "(l \<noteq> [] \<longrightarrow> \<not> isspace (last l))"
  shows "\<not> isspace (last (if endswith (strip l) [DELIM] then l else strip l @ [DELIM] @ u @ [DELIM]))"
proof (cases "endswith (strip l) [DELIM]")
  case True
  then have "strip l \<noteq> []" by (simp add: endswith_single)
  then have "l \<noteq> []" using strip_Nil by auto
  then show ?thesis using True assms by simp
next
  case False
  then show ?thesis using isspace_DELIM by simp
qed

lemma add_missing_loop_trimmed:
  assumes ne: "ls \<noteq> []"
      and h: "hd ls \<noteq> [] \<longrightarrow> \<not> isspace (hd (hd ls))"
      and l: "last ls \<noteq> [] \<longrightarrow> \<not> isspace (last (last ls))"
  shows "strip (join_py sep (fst (add_missing_loop rnd n ls))) = join_py sep (fst (add_missing_loop rnd n ls))"
proof -
  let ?out = "fst (add_missing_loop rnd n ls)"
  have len: "length ?out = length ls" by (rule add_missing_loop_length)
  then have one: "?out \<noteq> []" using ne by auto
  have 0: "0 < length ls" using ne by simp
  have hd_out: "hd ?out = ?out ! 0" using one by (simp add: hd_conv_nth)
  have hd_ls: "hd ls = ls ! 0" using ne by (simp add: hd_conv_nth)
  have a: "hd ?out \<noteq> [] \<and> \<not> isspace (hd (hd ?out))"
    unfolding hd_out add_missing_loop_nth [OF 0]
    using anchored_line_ends [of "ls ! 0"] h hd_ls by simp
  have k: "length ls - 1 < length ls" using ne by simp
  have last_out: "last ?out = ?out ! (length ls - 1)" using one len by (simp add: last_conv_nth)
  have last_ls: "last ls = ls ! (length ls - 1)" using ne by (simp add: last_conv_nth)
  have b1: "\<not> isspace (last (last ?out))"
    unfolding last_out add_missing_loop_nth [OF k]
    using anchored_line_last [of "ls ! (length ls - 1)"] l last_ls by simp
  have "endswith (strip (last ?out)) [DELIM]"
    using add_missing_loop_anchored [of "last ?out" rnd n ls] one by simp
  then have "strip (last ?out) \<noteq> []" by (simp add: endswith_single)
  then have b2: "last ?out \<noteq> []" using strip_Nil by auto
  show ?thesis using one a b1 b2 by (intro join_trimmed) simp_all
qed

lemma add_missing_uuids_fst:
  "fst (add_missing_uuids rnd n d) = join_py [NL] (fst (add_missing_loop rnd n (split_py NL (strip d))))"
  by (simp add: add_missing_uuids_def case_prod_unfold Let_def)

lemma add_missing_uuids_snd:
  "snd (add_missing_uuids rnd n d) = snd (add_missing_loop rnd n (split_py NL (strip d)))"
  by (simp add: add_missing_uuids_def case_prod_unfold Let_def)

lemma add_missing_uuids_lines:
  "split_py NL (fst (add_missing_uuids rnd n d)) = fst (add_missing_loop rnd n (split_py NL (strip d)))"
proof -
  let ?out = "fst (add_missing_loop rnd n (split_py NL (strip d)))"
  have "?out \<noteq> []"
    using add_missing_loop_length [of rnd n "split_py NL (strip d)"] split_py_nonempty [of NL "strip d"]
    by auto
  moreover have "\<forall>l \<in> set ?out. NL \<notin> set l"
    using add_missing_loop_NL_free [of "split_py NL (strip d)"] split_py_free by blast
  ultimately have "split_py NL (join_py [NL] ?out) = ?out" by (rule split_join)
  then show ?thesis by (simp add: add_missing_uuids_fst)
qed

lemma add_missing_uuids_trimmed:
  "strip (fst (add_missing_uuids rnd n d)) = fst (add_missing_uuids rnd n d)"
  using add_missing_loop_trimmed [OF split_py_nonempty, of NL "strip d" "[NL]" rnd n] split_strip_ends [of d]
  by (simp add: add_missing_uuids_fst)

lemma add_missing_uuids_anchored:
  "add_missing_uuids rnd n d = (strip d, n)" if "\<forall>l \<in> set (split_py NL (strip d)). endswith (strip l) [DELIM]"
  using that by (simp add: add_missing_uuids_def add_missing_loop_id join_split)

lemma add_missing_uuids_twice:
  "add_missing_uuids rnd2 m (fst (add_missing_uuids rnd n d)) = (fst (add_missing_uuids rnd n d), m)"
proof -
  let ?o = "fst (add_missing_uuids rnd n d)"
  have "\<forall>l \<in> set (split_py NL (strip ?o)). endswith (strip l) [DELIM]"
    unfolding add_missing_uuids_trimmed add_missing_uuids_lines
    using add_missing_loop_anchored by blast
  then have "add_missing_uuids rnd2 m ?o = (strip ?o, m)" by (rule add_missing_uuids_anchored)
  then show ?thesis by (simp add: add_missing_uuids_trimmed)
qed

lemma uuid_hex_of_nat_0: "uuid_hex (of_nat 0) = ascii ''00000000000000000000000000000000''"
  by (simp add: uuid_hex_def hexdigit_def ascii_def upt_conv_Cons)

lemma uuid_hex_of_nat_1: "uuid_hex (of_nat (Suc 0)) = ascii ''00000000000000000000000000000001''"
  by (simp add: uuid_hex_def hexdigit_def ascii_def upt_conv_Cons)

text \<open>
  In the document of the two lines "x" delimiter space and space "y", the first line
  does not end with the delimiter and gets no anchor (it ends with it once trimmed), and
  the second gets its anchor after its leading space is removed.
\<close>
theorem add_missing_uuids_trailing_space_counterexample:
  "split_py NL (strip (ascii ''x'' @ [DELIM, SP, NL, SP] @ ascii ''y'')) =
     [ascii ''x'' @ [DELIM, SP], SP # ascii ''y''] \<and>
   \<not> endswith (ascii ''x'' @ [DELIM, SP]) [DELIM] \<and>
   \<not> endswith (SP # ascii ''y'') [DELIM] \<and>
   split_py NL (fst (add_missing_uuids of_nat 0 (ascii ''x'' @ [DELIM, SP, NL, SP] @ ascii ''y''))) =
     [ascii ''x'' @ [DELIM, SP],
      ascii ''y'' @ [DELIM] @ ascii ''00000000000000000000000000000000'' @ [DELIM]] \<and>
   ascii ''y'' @ [DELIM] @ ascii ''00000000000000000000000000000000'' @ [DELIM] \<noteq>
     (SP # ascii ''y'') @ [DELIM] @ ascii ''00000000000000000000000000000000'' @ [DELIM]"
  by (simp add: add_missing_uuids_def get_unique_id_def uuid_hex_of_nat_0 [simplified] strip_def isspace_def eval_defs)

text \<open>
  The document space "a" delimiter has one line, which ends with the delimiter; the
  function returns it without its leading space.
\<close>
theorem add_missing_uuids_leading_space_counterexample:
  "split_py NL (SP # ascii ''a'' @ [DELIM]) = [SP # ascii ''a'' @ [DELIM]] \<and>
   endswith (SP # ascii ''a'' @ [DELIM]) [DELIM] \<and>
   add_missing_uuids of_nat 0 (SP # ascii ''a'' @ [DELIM]) = (ascii ''a'' @ [DELIM], 0) \<and>
   fst (add_missing_uuids of_nat 0 (SP # ascii ''a'' @ [DELIM])) \<noteq> SP # ascii ''a'' @ [DELIM]"
  by (simp add: add_missing_uuids_def get_unique_id_def strip_def isspace_def eval_defs)

text \<open>
  C5 (amended). On a document whose lines all end with the delimiter once trimmed,
  \<open>add_missing_uuids\<close> draws no identifier and returns the document trimmed of its
  surrounding white space: the document itself when every line ends with the delimiter
  and the document does not begin with white space. Applied to its own output it
  changes nothing and draws nothing, whatever the document was.
\<close>
theorem add_missing_uuids_idempotent:
  "((\<forall>l \<in> set (split_py NL (strip d)). endswith (strip l) [DELIM]) \<longrightarrow>
      add_missing_uuids rnd n d = (strip d, n)) \<and>
   ((\<forall>l \<in> set (split_py NL d). endswith l [DELIM]) \<and> \<not> isspace (hd d) \<longrightarrow>
      add_missing_uuids rnd n d = (d, n)) \<and>
   add_missing_uuids rnd2 m (fst (add_missing_uuids rnd n d)) = (fst (add_missing_uuids rnd n d), m)"
proof (intro conjI impI)
  assume "\<forall>l \<in> set (split_py NL (strip d)). endswith (strip l) [DELIM]"
  then show "add_missing_uuids rnd n d = (strip d, n)" by (rule add_missing_uuids_anchored)
next
  assume h: "(\<forall>l \<in> set (split_py NL d). endswith l [DELIM]) \<and> \<not> isspace (hd d)"
  let ?ls = "split_py NL d"
  have ne: "?ls \<noteq> []" by (rule split_py_nonempty)
  then have "last ?ls \<in> set ?ls" by simp
  then have e: "endswith (last ?ls) [DELIM]" using h by blast
  then have l: "last ?ls \<noteq> []" "last (last ?ls) = DELIM" by (simp_all add: endswith_single)
  have "last (join_py [NL] ?ls) = DELIM" using last_join_py [OF ne l(1)] l(2) by simp
  then have "last d = DELIM" by (simp add: join_split)
  then have "\<not> isspace (last d)" using isspace_DELIM by simp
  then have s: "strip d = d" using h by (intro strip_noop) simp
  have "\<forall>l \<in> set (split_py NL (strip d)). endswith (strip l) [DELIM]"
    unfolding s using h endswith_strip isspace_DELIM by blast
  then show "add_missing_uuids rnd n d = (d, n)" using add_missing_uuids_anchored [of d rnd n] s by simp
next
  show "add_missing_uuids rnd2 m (fst (add_missing_uuids rnd n d)) = (fst (add_missing_uuids rnd n d), m)"
    by (rule add_missing_uuids_twice)
qed

theorem add_missing_uuids_idempotent_witness:
  "split_py NL (strip (SP # ascii ''a'' @ [DELIM, NL])) = [ascii ''a'' @ [DELIM]] \<and>
   endswith (strip (ascii ''a'' @ [DELIM])) [DELIM] \<and>
   add_missing_uuids of_nat 0 (SP # ascii ''a'' @ [DELIM, NL]) = (ascii ''a'' @ [DELIM], 0) \<and>
   split_py NL (ascii ''a'' @ [DELIM, NL] @ ascii ''b'' @ [DELIM]) = [ascii ''a'' @ [DELIM], ascii ''b'' @ [DELIM]] \<and>
   endswith (ascii ''a'' @ [DELIM]) [DELIM] \<and> endswith (ascii ''b'' @ [DELIM]) [DELIM] \<and>
   \<not> isspace (hd (ascii ''a'' @ [DELIM, NL] @ ascii ''b'' @ [DELIM])) \<and>
   add_missing_uuids of_nat 0 (ascii ''a'' @ [DELIM, NL] @ ascii ''b'' @ [DELIM]) =
     (ascii ''a'' @ [DELIM, NL] @ ascii ''b'' @ [DELIM], 0)"
proof -
  have h1: "\<forall>l \<in> set (split_py NL (strip (SP # ascii ''a'' @ [DELIM, NL]))). endswith (strip l) [DELIM]"
    by (simp add: strip_def isspace_def eval_defs)
  have h2: "(\<forall>l \<in> set (split_py NL (ascii ''a'' @ [DELIM, NL] @ ascii ''b'' @ [DELIM])). endswith l [DELIM]) \<and>
            \<not> isspace (hd (ascii ''a'' @ [DELIM, NL] @ ascii ''b'' @ [DELIM]))"
    by (simp add: isspace_def eval_defs)
  have s: "strip (SP # ascii ''a'' @ [DELIM, NL]) = ascii ''a'' @ [DELIM]"
    by (simp add: strip_def isspace_def eval_defs)
  have e: "split_py NL (strip (SP # ascii ''a'' @ [DELIM, NL])) = [ascii ''a'' @ [DELIM]] \<and>
     endswith (strip (ascii ''a'' @ [DELIM])) [DELIM] \<and>
     split_py NL (ascii ''a'' @ [DELIM, NL] @ ascii ''b'' @ [DELIM]) = [ascii ''a'' @ [DELIM], ascii ''b'' @ [DELIM]] \<and>
     endswith (ascii ''a'' @ [DELIM]) [DELIM] \<and> endswith (ascii ''b'' @ [DELIM]) [DELIM]"
    by (simp add: strip_def isspace_def eval_defs)
  show ?thesis
    using h1 h2 s e
      add_missing_uuids_idempotent [of "SP # ascii ''a'' @ [DELIM, NL]" of_nat 0 of_nat 0]
      add_missing_uuids_idempotent [of "ascii ''a'' @ [DELIM, NL] @ ascii ''b'' @ [DELIM]" of_nat 0 of_nat 0]
    by metis
qed

text \<open>
  C4 (amended). For the lines of the trimmed document, in order: a line that, once
  trimmed, ends with the delimiter is kept as it is; any other line is replaced by its
  trimmed form followed by delimiter, identifier, delimiter, where the identifier is
  the 32 hexadecimal digits of the next 128-bit draw, whatever anchors the document
  already has. The number of lines is unchanged and one draw is consumed per anchor.
\<close>
theorem add_missing_uuids_contract:
  assumes "lines = split_py NL (strip dump)"
      and "out = split_py NL (fst (add_missing_uuids rnd n dump))"
  shows "length out = length lines \<and>
         snd (add_missing_uuids rnd n dump) =
           n + length (filter (\<lambda>l. \<not> endswith (strip l) [DELIM]) lines) \<and>
         (\<forall>i < length lines.
            out ! i =
              (if endswith (strip (lines ! i)) [DELIM] then lines ! i
               else strip (lines ! i) @ [DELIM] @
                    uuid_hex (rnd (n + length (filter (\<lambda>l. \<not> endswith (strip l) [DELIM]) (take i lines)))) @
                    [DELIM])) \<and>
         length (uuid_hex w) = 32 \<and>
         (\<forall>c \<in> set (uuid_hex w). (48 \<le> c \<and> c \<le> 57) \<or> (97 \<le> c \<and> c \<le> 102))"
  unfolding assms add_missing_uuids_lines add_missing_uuids_snd
  using add_missing_loop_length add_missing_loop_snd add_missing_loop_nth uuid_hex_length uuid_hex_digits
  by blast

theorem add_missing_uuids_contract_witness:
  "[ascii ''a'', ascii ''b'' @ [DELIM, SP], SP # ascii ''c''] =
     split_py NL (strip (ascii ''a'' @ [NL] @ ascii ''b'' @ [DELIM, SP, NL, SP] @ ascii ''c'')) \<and>
   [ascii ''a'' @ [DELIM] @ ascii ''00000000000000000000000000000000'' @ [DELIM],
    ascii ''b'' @ [DELIM, SP],
    ascii ''c'' @ [DELIM] @ ascii ''00000000000000000000000000000001'' @ [DELIM]] =
     split_py NL (fst (add_missing_uuids of_nat 0
        (ascii ''a'' @ [NL] @ ascii ''b'' @ [DELIM, SP, NL, SP] @ ascii ''c''))) \<and>
   snd (add_missing_uuids of_nat 0 (ascii ''a'' @ [NL] @ ascii ''b'' @ [DELIM, SP, NL, SP] @ ascii ''c'')) = 2"
proof -
  have h1: "[ascii ''a'', ascii ''b'' @ [DELIM, SP], SP # ascii ''c''] =
     split_py NL (strip (ascii ''a'' @ [NL] @ ascii ''b'' @ [DELIM, SP, NL, SP] @ ascii ''c''))"
    by (simp add: strip_def isspace_def eval_defs)
  have h2: "[ascii ''a'' @ [DELIM] @ ascii ''00000000000000000000000000000000'' @ [DELIM],
    ascii ''b'' @ [DELIM, SP],
    ascii ''c'' @ [DELIM] @ ascii ''00000000000000000000000000000001'' @ [DELIM]] =
     split_py NL (fst (add_missing_uuids of_nat 0
        (ascii ''a'' @ [NL] @ ascii ''b'' @ [DELIM, SP, NL, SP] @ ascii ''c'')))"
    by (simp add: add_missing_uuids_def get_unique_id_def uuid_hex_of_nat_0 [simplified]
        uuid_hex_of_nat_1 [simplified] strip_def isspace_def eval_defs)
  have h3: "length (filter (\<lambda>l. \<not> endswith (strip l) [DELIM])
                   [ascii ''a'', ascii ''b'' @ [DELIM, SP], SP # ascii ''c'']) = 2"
    by (simp add: strip_def isspace_def eval_defs)
  show ?thesis
    using h1 h2 h3 add_missing_uuids_contract [OF h1 h2] by simp
qed

section \<open>Parsing the anchored lines\<close>

lemma remove_extra_uuid_endswith:
  assumes "endswith y [DELIM]"
  shows "endswith (remove_extra_uuid y) [DELIM]"
proof (cases "count_py DELIM y > 2")
  case False
  then show ?thesis using assms by (simp add: remove_extra_uuid_def)
next
  case True
  then obtain pre a rest where l: "y = pre @ DELIM # a @ DELIM # rest"
    "DELIM \<notin> set pre" "DELIM \<notin> set a"
    using split_two [of DELIM y] by auto
  have "count_py DELIM y = count_py DELIM rest + 2"
    using l(2,3) count_py_zero_iff [of DELIM pre] count_py_zero_iff [of DELIM a]
    by (simp add: l(1) count_py_append count_py_Cons)
  then have r: "DELIM \<in> set rest" using True count_py_zero_iff [of DELIM rest] by auto
  then have ne: "rest \<noteq> []" by auto
  have "last y = DELIM" using assms by (simp add: endswith_single)
  then have "last rest = DELIM" using ne by (simp add: l(1))
  then have "endswith (pre @ rest) [DELIM]" using ne by (simp add: endswith_single)
  then have "endswith (strip (pre @ rest)) [DELIM]" by (rule endswith_strip) (rule isspace_DELIM)
  then show ?thesis using remove_extra_uuid_segment [OF l(2,3) r] l(1) by simp
qed

lemma slice_to_butlast: "slice_to (w @ [c]) (- 1) = w"
  by (simp add: slice_to_def)

lemma split_two_parts:
  "length (split_py c w) = 2 \<longleftrightarrow> (\<exists>a b. split_py c w = [a, b])"
  by (cases "split_py c w"; cases "tl (split_py c w)"; cases "tl (tl (split_py c w))") auto

lemma parse_line_iff:
  assumes "endswith z [DELIM]"
  shows "(\<exists>txt ctxt. split_py DELIM (slice_to z (- 1)) = [txt, ctxt]) \<longleftrightarrow> count_py DELIM z = 2"
proof -
  obtain w where z: "z = w @ [DELIM]"
    using assms by (cases z rule: rev_cases) (auto simp: endswith_single)
  have "length (split_py DELIM w) = 2 \<longleftrightarrow> count_py DELIM z = 2"
    by (simp add: length_split_py z count_py_append count_py_Cons count_py_Nil)
  then show ?thesis by (simp add: z slice_to_butlast split_two_parts)
qed

lemma generate_loop_Cons_ok:
  "split_py DELIM (slice_to (remove_extra_uuid (strip l)) (- 1)) = [txt, ctxt] \<Longrightarrow>
   generate_loop (l # ls) = (case generate_loop ls of Inl e \<Rightarrow> Inl e | Inr es \<Rightarrow> Inr ((txt, ctxt) # es))"
  by (simp add: Let_def)

lemma generate_loop_Cons_fail:
  "\<not> (\<exists>txt ctxt. split_py DELIM (slice_to (remove_extra_uuid (strip l)) (- 1)) = [txt, ctxt]) \<Longrightarrow>
   generate_loop (l # ls) = Inl ValueError"
  by (auto simp: Let_def split: list.splits)

lemma generate_loop_iff:
  assumes "\<forall>l \<in> set ls. endswith (strip l) [DELIM]"
  shows "(\<exists>es. generate_loop ls = Inr es) \<longleftrightarrow>
         (\<forall>l \<in> set ls. count_py DELIM (remove_extra_uuid (strip l)) = 2)"
  using assms
proof (induction ls)
  case Nil
  then show ?case by simp
next
  case (Cons l ls)
  have e: "endswith (remove_extra_uuid (strip l)) [DELIM]"
    using Cons.prems by (intro remove_extra_uuid_endswith) simp
  show ?case
  proof (cases "count_py DELIM (remove_extra_uuid (strip l)) = 2")
    case True
    then obtain tx cx where p: "split_py DELIM (slice_to (remove_extra_uuid (strip l)) (- 1)) = [tx, cx]"
      using parse_line_iff [OF e] by blast
    show ?thesis using Cons True
      by (auto simp: generate_loop_Cons_ok [OF p] simp del: generate_loop.simps split: sum.splits)
  next
    case False
    then have "\<not> (\<exists>txt ctxt. split_py DELIM (slice_to (remove_extra_uuid (strip l)) (- 1)) = [txt, ctxt])"
      using parse_line_iff [OF e] by blast
    then show ?thesis using False by (simp add: generate_loop_Cons_fail del: generate_loop.simps)
  qed
qed

lemma generate_loop_result:
  "generate_loop ls = Inr es \<Longrightarrow>
   length es = length ls \<and> (\<forall>(t, c) \<in> set es. DELIM \<notin> set t \<and> DELIM \<notin> set c)"
proof (induction ls arbitrary: es)
  case Nil
  then show ?case by simp
next
  case (Cons l ls)
  show ?case
  proof (cases "\<exists>txt ctxt. split_py DELIM (slice_to (remove_extra_uuid (strip l)) (- 1)) = [txt, ctxt]")
    case False
    then show ?thesis using Cons.prems by (simp add: generate_loop_Cons_fail del: generate_loop.simps)
  next
    case True
    then obtain tx cx where p: "split_py DELIM (slice_to (remove_extra_uuid (strip l)) (- 1)) = [tx, cx]"
      by blast
    have "tx \<in> set (split_py DELIM (slice_to (remove_extra_uuid (strip l)) (- 1)))"
         "cx \<in> set (split_py DELIM (slice_to (remove_extra_uuid (strip l)) (- 1)))"
      by (simp_all add: p)
    then have f: "DELIM \<notin> set tx" "DELIM \<notin> set cx" using split_py_free by blast+
    obtain es' where es': "generate_loop ls = Inr es'" "es = (tx, cx) # es'"
      using Cons.prems by (auto simp: generate_loop_Cons_ok [OF p] simp del: generate_loop.simps split: sum.splits)
    show ?thesis using Cons.IH [OF es'(1)] es'(2) f by simp
  qed
qed

lemma anchored_line_strip:
  "strip (strip l @ [DELIM] @ u @ [DELIM]) = strip l @ [DELIM] @ u @ [DELIM]"
proof (cases "strip l = []")
  case True
  then show ?thesis using isspace_DELIM by (intro strip_noop) simp
next
  case False
  then have "\<not> isspace (hd (strip l))" using strip_ends by blast
  then show ?thesis using False isspace_DELIM by (intro strip_noop) simp
qed

lemma count_two_or_four:
  "count_py DELIM (remove_extra_uuid y) = 2 \<longleftrightarrow> count_py DELIM y = 2 \<or> count_py DELIM y = 4"
  by (auto simp: remove_extra_uuid_count)

lemma out_line_ok:
  assumes "i < length ls"
  shows "count_py DELIM (remove_extra_uuid (strip (fst (add_missing_loop rnd n ls) ! i))) = 2 \<longleftrightarrow>
         (if endswith (strip (ls ! i)) [DELIM]
          then count_py DELIM (strip (ls ! i)) = 2 \<or> count_py DELIM (strip (ls ! i)) = 4
          else count_py DELIM (strip (ls ! i)) = 0 \<or> count_py DELIM (strip (ls ! i)) = 2)"
proof (cases "endswith (strip (ls ! i)) [DELIM]")
  case True
  then show ?thesis by (simp add: add_missing_loop_nth [OF assms] count_two_or_four)
next
  case False
  have "count_py DELIM (uuid_hex w) = 0" for w
    using uuid_hex_no_DELIM by (simp add: count_py_zero_iff)
  then show ?thesis using False
    by (simp add: add_missing_loop_nth [OF assms] anchored_line_strip [simplified] count_two_or_four
        count_py_append count_py_Cons count_py_Nil)
qed

lemma generate_entries_unfold:
  assumes "d1 = (case po_file of None \<Rightarrow> dump | Some f \<Rightarrow> extract_entries transfer dump f)"
  shows "generate_entries transfer rnd n dump po_file =
           (case generate_loop (fst (add_missing_loop rnd n (split_py NL (strip d1)))) of
              Inl e \<Rightarrow> Inl e
            | Inr es \<Rightarrow> Inr (es, snd (add_missing_loop rnd n (split_py NL (strip d1)))))"
proof -
  have "generate_entries transfer rnd n dump po_file =
          (case generate_loop (split_py NL (strip (fst (add_missing_uuids rnd n d1)))) of
             Inl e \<Rightarrow> Inl e
           | Inr es \<Rightarrow> Inr (es, snd (add_missing_uuids rnd n d1)))"
    unfolding assms
    by (cases po_file) (simp_all add: generate_entries_def case_prod_unfold Let_def split: sum.splits)
  then show ?thesis
    unfolding assms
    by (simp only: add_missing_uuids_trimmed add_missing_uuids_lines add_missing_uuids_snd)
qed

lemma generate_entries_iff:
  assumes "d1 = (case po_file of None \<Rightarrow> dump | Some f \<Rightarrow> extract_entries transfer dump f)"
  shows "(\<exists>r. generate_entries transfer rnd n dump po_file = Inr r) \<longleftrightarrow>
         (\<forall>l \<in> set (split_py NL (strip d1)).
            if endswith (strip l) [DELIM]
            then count_py DELIM (strip l) = 2 \<or> count_py DELIM (strip l) = 4
            else count_py DELIM (strip l) = 0 \<or> count_py DELIM (strip l) = 2)"
proof -
  let ?ls = "split_py NL (strip d1)"
  let ?out = "fst (add_missing_loop rnd n ?ls)"
  have len: "length ?out = length ?ls" by (rule add_missing_loop_length)
  have anch: "\<forall>l \<in> set ?out. endswith (strip l) [DELIM]"
    using add_missing_loop_anchored by blast
  have "(\<exists>r. generate_entries transfer rnd n dump po_file = Inr r) \<longleftrightarrow> (\<exists>es. generate_loop ?out = Inr es)"
    by (auto simp: generate_entries_unfold [OF assms] split: sum.splits)
  also have "\<dots> \<longleftrightarrow> (\<forall>l \<in> set ?out. count_py DELIM (remove_extra_uuid (strip l)) = 2)"
    by (rule generate_loop_iff [OF anch])
  also have "\<dots> \<longleftrightarrow> (\<forall>i < length ?ls. count_py DELIM (remove_extra_uuid (strip (?out ! i))) = 2)"
    by (simp add: all_set_conv_all_nth len)
  also have "\<dots> \<longleftrightarrow> (\<forall>i < length ?ls.
            if endswith (strip (?ls ! i)) [DELIM]
            then count_py DELIM (strip (?ls ! i)) = 2 \<or> count_py DELIM (strip (?ls ! i)) = 4
            else count_py DELIM (strip (?ls ! i)) = 0 \<or> count_py DELIM (strip (?ls ! i)) = 2)"
    using out_line_ok by blast
  also have "\<dots> \<longleftrightarrow> (\<forall>l \<in> set ?ls.
            if endswith (strip l) [DELIM]
            then count_py DELIM (strip l) = 2 \<or> count_py DELIM (strip l) = 4
            else count_py DELIM (strip l) = 0 \<or> count_py DELIM (strip l) = 2)"
    by (simp add: all_set_conv_all_nth)
  finally show ?thesis .
qed

lemma generate_entries_result:
  assumes "d1 = (case po_file of None \<Rightarrow> dump | Some f \<Rightarrow> extract_entries transfer dump f)"
      and "generate_entries transfer rnd n dump po_file = Inr (entries, n')"
  shows "length entries = length (split_py NL (strip d1)) \<and>
         (\<forall>(t, c) \<in> set entries. DELIM \<notin> set t \<and> DELIM \<notin> set c)"
proof -
  have "generate_loop (fst (add_missing_loop rnd n (split_py NL (strip d1)))) = Inr entries"
    using assms(2) by (auto simp: generate_entries_unfold [OF assms(1)] split: sum.splits)
  then show ?thesis
    using generate_loop_result [of "fst (add_missing_loop rnd n (split_py NL (strip d1)))" entries]
      add_missing_loop_length [of rnd n "split_py NL (strip d1)"]
    by simp
qed

lemma first_run_line:
  assumes "DELIM \<notin> set l"
  shows "\<not> endswith (strip l) [DELIM] \<and>
         split_py DELIM (slice_to (remove_extra_uuid (strip (strip l @ [DELIM] @ uuid_hex w @ [DELIM]))) (- 1)) =
           [strip l, uuid_hex w]"
proof -
  have s: "DELIM \<notin> set (strip l)" using assms set_strip by blast
  then have 1: "\<not> endswith (strip l) [DELIM]" by (metis endswith_single last_in_set)
  have c: "count_py DELIM (strip l @ [DELIM] @ uuid_hex w @ [DELIM]) = 2"
    using s uuid_hex_no_DELIM [of w] count_py_zero_iff [of DELIM "strip l"] count_py_zero_iff [of DELIM "uuid_hex w"]
    by (simp add: count_py_append count_py_Cons count_py_Nil)
  have r: "remove_extra_uuid (strip l @ [DELIM] @ uuid_hex w @ [DELIM]) = strip l @ [DELIM] @ uuid_hex w @ [DELIM]"
    using c by (intro remove_extra_uuid_unchanged) simp
  have "slice_to ((strip l @ [DELIM] @ uuid_hex w) @ [DELIM]) (- 1) = strip l @ [DELIM] @ uuid_hex w"
    by (rule slice_to_butlast)
  then have sl: "slice_to (strip l @ [DELIM] @ uuid_hex w @ [DELIM]) (- 1) = strip l @ DELIM # uuid_hex w"
    by simp
  have "split_py DELIM (strip l @ DELIM # uuid_hex w) = [strip l, uuid_hex w]"
    using s uuid_hex_no_DELIM [of w] by (simp add: split_py_append split_py_none)
  then show ?thesis using 1 by (simp only: anchored_line_strip r sl) simp
qed

lemma first_run_loop:
  "\<forall>l \<in> set ls. DELIM \<notin> set l \<Longrightarrow>
   generate_loop (fst (add_missing_loop rnd n ls)) =
     Inr (map2 (\<lambda>k l. (strip l, uuid_hex (rnd k))) [n..<n + length ls] ls) \<and>
   snd (add_missing_loop rnd n ls) = n + length ls"
proof (induction ls arbitrary: n)
  case Nil
  then show ?case by simp
next
  case (Cons l ls)
  have l: "DELIM \<notin> set l" using Cons.prems by simp
  note f = first_run_line [OF l, of "rnd n"]
  have ih: "generate_loop (fst (add_missing_loop rnd (Suc n) ls)) =
     Inr (map2 (\<lambda>k l. (strip l, uuid_hex (rnd k))) [Suc n..<Suc n + length ls] ls) \<and>
   snd (add_missing_loop rnd (Suc n) ls) = Suc n + length ls"
    using Cons by simp
  have "[n..<Suc (n + length ls)] = n # [Suc n..<Suc (n + length ls)]"
    by (rule upt_conv_Cons) simp
  then have u: "[n..<n + length (l # ls)] = n # [Suc n..<Suc n + length ls]"
    by simp
  have o: "fst (add_missing_loop rnd n (l # ls)) =
             (strip l @ [DELIM] @ uuid_hex (rnd n) @ [DELIM]) # fst (add_missing_loop rnd (Suc n) ls)"
    using f by (simp add: add_missing_loop_Cons del: add_missing_loop.simps)
  have g: "generate_loop (fst (add_missing_loop rnd n (l # ls))) =
        Inr ((strip l, uuid_hex (rnd n)) # map2 (\<lambda>k l. (strip l, uuid_hex (rnd k))) [Suc n..<Suc n + length ls] ls)"
    unfolding o using generate_loop_Cons_ok [OF conjunct2 [OF f]] ih by simp
  have s: "snd (add_missing_loop rnd n (l # ls)) = n + length (l # ls)"
    using f ih by (simp add: Let_def get_unique_id_def case_prod_unfold)
  show ?case unfolding u using g s by simp
qed

lemma set_join_py: "l \<in> set ls \<Longrightarrow> set l \<subseteq> set (join_py sep ls)"
  by (induction ls) (auto simp: join_py_Cons)

lemma split_py_subset: "l \<in> set (split_py c s) \<Longrightarrow> set l \<subseteq> set s"
  using set_join_py [of l "split_py c s" "[c]"] by (simp add: join_split)

text \<open>
  On a first run over the raw text "a", delimiter, "b", the line gets its anchor, then
  has three delimiters; \<open>remove_extra_uuid\<close> cuts the first segment, one delimiter is
  left at the end, and the unpacking of the split fails.
\<close>
theorem generate_entries_delimiter_in_text_counterexample:
  "generate_entries no_transfer of_nat 0 (ascii ''a'' @ [DELIM] @ ascii ''b'') None = Inl ValueError"
  by (simp add: generate_entries_def add_missing_uuids_def get_unique_id_def uuid_hex_of_nat_0 [simplified]
      remove_extra_uuid_def count_py_def find_py_def slice_to_def slice_from_def
      strip_def isspace_def eval_defs)

text \<open>
  C1 (amended). Let \<open>d1\<close> be the text handed to anchor assignment: the raw source when
  there is no unit file, the output of the alignment primitive otherwise.
  \<open>generate_entries\<close> returns (no \<open>ValueError\<close>) exactly when every line of \<open>d1\<close>,
  once trimmed, has no or two delimiters if it does not end with the delimiter, and two
  or four if it does. It then returns one (text, anchor) pair per line, neither part
  holding a delimiter. On a first run over a raw text without delimiter it returns,
  for each line, the trimmed line and the identifier drawn for it.
\<close>
theorem generate_entries_well_formed:
  assumes "d1 = (case po_file of None \<Rightarrow> dump | Some f \<Rightarrow> extract_entries transfer dump f)"
  shows "((\<exists>r. generate_entries transfer rnd n dump po_file = Inr r) \<longleftrightarrow>
            (\<forall>l \<in> set (split_py NL (strip d1)).
               if endswith (strip l) [DELIM]
               then count_py DELIM (strip l) = 2 \<or> count_py DELIM (strip l) = 4
               else count_py DELIM (strip l) = 0 \<or> count_py DELIM (strip l) = 2)) \<and>
         (\<forall>entries n'. generate_entries transfer rnd n dump po_file = Inr (entries, n') \<longrightarrow>
            length entries = length (split_py NL (strip d1)) \<and>
            (\<forall>(t, c) \<in> set entries. DELIM \<notin> set t \<and> DELIM \<notin> set c)) \<and>
         (po_file = None \<and> DELIM \<notin> set dump \<longrightarrow>
            generate_entries transfer rnd n dump po_file =
              Inr (map2 (\<lambda>k l. (strip l, uuid_hex (rnd k)))
                     [n..<n + length (split_py NL (strip dump))] (split_py NL (strip dump)),
                   n + length (split_py NL (strip dump))))"
proof (intro conjI allI impI)
  show "(\<exists>r. generate_entries transfer rnd n dump po_file = Inr r) \<longleftrightarrow>
            (\<forall>l \<in> set (split_py NL (strip d1)).
               if endswith (strip l) [DELIM]
               then count_py DELIM (strip l) = 2 \<or> count_py DELIM (strip l) = 4
               else count_py DELIM (strip l) = 0 \<or> count_py DELIM (strip l) = 2)"
    by (rule generate_entries_iff [OF assms])
next
  fix entries n'
  assume g: "generate_entries transfer rnd n dump po_file = Inr (entries, n')"
  show "length entries = length (split_py NL (strip d1))"
    using generate_entries_result [OF assms g] by simp
  show "\<forall>(t, c) \<in> set entries. DELIM \<notin> set t \<and> DELIM \<notin> set c"
    using generate_entries_result [OF assms g] by simp
next
  assume h: "po_file = None \<and> DELIM \<notin> set dump"
  then have d: "dump = (case po_file of None \<Rightarrow> dump | Some f \<Rightarrow> extract_entries transfer dump f)"
    by simp
  have "\<forall>l \<in> set (split_py NL (strip dump)). DELIM \<notin> set l"
    using h split_py_subset [of _ NL "strip dump"] set_strip [of dump] by blast
  then show "generate_entries transfer rnd n dump po_file =
              Inr (map2 (\<lambda>k l. (strip l, uuid_hex (rnd k)))
                     [n..<n + length (split_py NL (strip dump))] (split_py NL (strip dump)),
                   n + length (split_py NL (strip dump)))"
    using first_run_loop [of "split_py NL (strip dump)" rnd n]
    by (simp add: generate_entries_unfold [OF d])
qed

theorem generate_entries_well_formed_witness:
  "ascii ''a'' @ [NL, SP] @ ascii ''b'' =
     (case None of None \<Rightarrow> ascii ''a'' @ [NL, SP] @ ascii ''b''
      | Some f \<Rightarrow> extract_entries no_transfer (ascii ''a'' @ [NL, SP] @ ascii ''b'') f) \<and>
   DELIM \<notin> set (ascii ''a'' @ [NL, SP] @ ascii ''b'') \<and>
   generate_entries no_transfer of_nat 0 (ascii ''a'' @ [NL, SP] @ ascii ''b'') None =
     Inr ([(ascii ''a'', ascii ''00000000000000000000000000000000''),
           (ascii ''b'', ascii ''00000000000000000000000000000001'')], 2)"
proof -
  have h1: "ascii ''a'' @ [NL, SP] @ ascii ''b'' =
     (case None of None \<Rightarrow> ascii ''a'' @ [NL, SP] @ ascii ''b''
      | Some f \<Rightarrow> extract_entries no_transfer (ascii ''a'' @ [NL, SP] @ ascii ''b'') f)"
    by simp
  have h2: "DELIM \<notin> set (ascii ''a'' @ [NL, SP] @ ascii ''b'')"
    by (simp add: eval_defs)
  have l: "split_py NL (strip (ascii ''a'' @ [NL, SP] @ ascii ''b'')) = [ascii ''a'', SP # ascii ''b'']"
    by (simp add: strip_def isspace_def eval_defs)
  have s: "strip (ascii ''a'') = ascii ''a''" "strip (SP # ascii ''b'') = ascii ''b''"
    by (simp_all add: strip_def isspace_def eval_defs)
  have u: "[0..<2] = [0, Suc 0]" by (simp add: numeral_2_eq_2)
  show ?thesis
    using h1 h2 generate_entries_well_formed [OF h1, of of_nat 0]
    by (simp add: l [simplified] s u uuid_hex_of_nat_0 [simplified] uuid_hex_of_nat_1 [simplified])
qed

end
